theory Spec2Isabelle
  imports Main
begin

section \<open>The mutation controller of use-mutation.ts\<close>

text \<open>
  The development embeds \<^verbatim>\<open>useMutation\<close> (src/src/use-mutation.test-d.ts, lines 84 to 150).
  The closure variables \<^verbatim>\<open>status\<close>, \<^verbatim>\<open>data\<close>, \<^verbatim>\<open>error\<close> and \<^verbatim>\<open>pendingPromise\<close> are fields of a
  record that every operation takes and returns. An exception is a value: a callback that may
  throw returns \<open>Some x\<close> (or \<open>Inl x\<close>) for the thrown \<open>x\<close>.

  The code the controller calls (\<^verbatim>\<open>options.mutation\<close>, \<^verbatim>\<open>options.keys\<close>, \<^verbatim>\<open>store.invalidateEntry\<close>)
  may return or throw; it does not call \<^verbatim>\<open>mutate\<close> or \<^verbatim>\<open>reset\<close> of the same controller while it
  runs. The two callbacks of a chain run as separate jobs, so other events may come between
  them.
\<close>

subsection \<open>Data\<close>

text \<open>
  The four status strings the code assigns: \<^verbatim>\<open>'pending'\<close> (the initial value, restored by
  \<^verbatim>\<open>reset\<close>; the specification calls this state idle), \<^verbatim>\<open>'loading'\<close>, \<^verbatim>\<open>'success'\<close>, \<^verbatim>\<open>'error'\<close>.
\<close>

datatype UseQueryStatus = Pending | Loading | Success | Error

text \<open>
  \<^verbatim>\<open>_MutationKeys\<close>: a list of keys, or a function of the result and the call's arguments. The
  function is user code and may throw (\<open>Inl\<close>).
\<close>

datatype ('r, 'e, 'p, 'k) MutationKeys =
  StaticKeys "'k list"
  | KeysFn "'r \<Rightarrow> 'p \<Rightarrow> 'e + 'k list"

text \<open>
  \<^verbatim>\<open>UseMutationOptions\<close>. The field \<^verbatim>\<open>keys\<close> is optional (\<open>None\<close> when it is undefined). What
  \<^verbatim>\<open>options.mutation\<close> does at a call is not a field: it is user code whose behaviour the
  environment decides, so it is supplied with each call (\<open>op_call\<close>) and with each settlement
  (the outcome \<open>'e + 'r\<close> of the promise it returned).
\<close>

record ('r, 'e, 'p, 'k) UseMutationOptions =
  keys :: "('r, 'e, 'p, 'k) MutationKeys option"

text \<open>
  The cache store of \<^verbatim>\<open>useQueryCache()\<close> is not part of the file; it is a parameter. Its one
  operation \<^verbatim>\<open>invalidateEntry(key)\<close> returns normally (\<open>None\<close>) or throws (\<open>Some x\<close>).
\<close>

record ('e, 'k) QueryCache =
  invalidateEntry :: "'k \<Rightarrow> 'e option"

text \<open>What \<^verbatim>\<open>options.mutation(...args)\<close> does when \<^verbatim>\<open>mutate\<close> calls it.\<close>

datatype 'e op_call = Throws 'e | Returns

text \<open>
  The chain \<^verbatim>\<open>options.mutation(...args).then(f).catch(g)\<close> of one call of \<^verbatim>\<open>mutate\<close>:
  \<^item> \<open>OpPending args\<close>: the user's promise has not settled; the callbacks hold \<open>args\<close>;
  \<^item> \<open>ThenSettled r\<close>: the promise made by \<^verbatim>\<open>.then\<close> has settled with \<open>r\<close>, and the reaction of
    \<^verbatim>\<open>.catch\<close> is queued;
  \<^item> \<open>Settled r\<close>: the promise made by \<^verbatim>\<open>.catch\<close>, which \<^verbatim>\<open>mutate\<close> returned, has settled with \<open>r\<close>.
\<close>

datatype ('r, 'e, 'p) chain_stage =
  OpPending 'p
  | ThenSettled "'e + 'r"
  | Settled "'e + 'r"

text \<open>
  The state. A promise is known by its identity only, so a promise is a number and
  \<open>nextPromise\<close> allocates them. \<open>keysCalls\<close> and \<open>invalidated\<close> record, in order, the calls of
  \<^verbatim>\<open>options.keys\<close> (result and arguments) and of \<^verbatim>\<open>store.invalidateEntry\<close> (the key).
\<close>

record ('r, 'e, 'p, 'k) mutation_state =
  status :: UseQueryStatus
  data :: "'r option"
  error :: "'e option"
  pendingPromise :: "nat option"
  nextPromise :: nat
  promises :: "nat \<Rightarrow> ('r, 'e, 'p) chain_stage option"
  keysCalls :: "('r \<times> 'p) list"
  invalidated :: "'k list"

subsection \<open>Operations\<close>

text \<open>Lines 91 to 98: the state \<^verbatim>\<open>useMutation\<close> starts from.\<close>

definition useMutation :: "('r, 'e, 'p, 'k) mutation_state" where
  "useMutation =
     \<lparr> status = Pending, data = None, error = None, pendingPromise = None,
       nextPromise = 0, promises = (\<lambda>p. None), keysCalls = [], invalidated = [] \<rparr>"

text \<open>Line 142: \<^verbatim>\<open>isLoading\<close> is computed from \<^verbatim>\<open>status\<close>.\<close>

definition isLoading :: "('r, 'e, 'p, 'k) mutation_state \<Rightarrow> bool" where
  "isLoading s = (status s = Loading)"

text \<open>
  Lines 99 to 104 and 131: \<^verbatim>\<open>mutate\<close> sets the status first, then calls the user's operation.
  If that throws, nothing else happens; otherwise the new chain becomes \<^verbatim>\<open>pendingPromise\<close> and
  is returned.
\<close>

definition mutate ::
  "'p \<Rightarrow> 'e op_call \<Rightarrow> ('r, 'e, 'p, 'k) mutation_state \<Rightarrow> ('e + nat) \<times> ('r, 'e, 'p, 'k) mutation_state"
where
  "mutate args call s =
     (let s1 = s\<lparr>status := Loading\<rparr> in
      case call of
        Throws x \<Rightarrow> (Inl x, s1)
      | Returns \<Rightarrow>
          (let promise = nextPromise s1 in
           (Inr promise,
            s1\<lparr>pendingPromise := Some promise, nextPromise := Suc promise,
               promises := (promises s1)(promise := Some (OpPending args))\<rparr>)))"

text \<open>Lines 115 to 118: the loop over the keys stops at the first call that throws.\<close>

fun invalidate_loop ::
  "('e, 'k) QueryCache \<Rightarrow> 'k list \<Rightarrow> ('r, 'e, 'p, 'k) mutation_state \<Rightarrow>
     'e option \<times> ('r, 'e, 'p, 'k) mutation_state"
where
  "invalidate_loop store [] s = (None, s)"
| "invalidate_loop store (key # rest) s =
     (let s1 = s\<lparr>invalidated := invalidated s @ [key]\<rparr> in
      case invalidateEntry store key of
        Some x \<Rightarrow> (Some x, s1)
      | None \<Rightarrow> invalidate_loop store rest s1)"

text \<open>
  Lines 105 to 122: the callback of \<^verbatim>\<open>.then\<close>, for the call whose chain is \<open>promise\<close> and whose
  arguments were \<open>args\<close>. The first component is the exception it throws, if any; without one
  it returns \<open>_data\<close>.
\<close>

definition then_callback ::
  "('r, 'e, 'p, 'k) UseMutationOptions \<Rightarrow> ('e, 'k) QueryCache \<Rightarrow> nat \<Rightarrow> 'p \<Rightarrow> 'r \<Rightarrow>
     ('r, 'e, 'p, 'k) mutation_state \<Rightarrow> 'e option \<times> ('r, 'e, 'p, 'k) mutation_state"
where
  "then_callback options store promise args d s =
     (if pendingPromise s = Some promise then
        (let s1 = s\<lparr>data := Some d, error := None, status := Success\<rparr> in
         case keys options of
           None \<Rightarrow> (None, s1)
         | Some (StaticKeys ks) \<Rightarrow> invalidate_loop store ks s1
         | Some (KeysFn f) \<Rightarrow>
             (let s2 = s1\<lparr>keysCalls := keysCalls s1 @ [(d, args)]\<rparr> in
              case f d args of
                Inl x \<Rightarrow> (Some x, s2)
              | Inr ks \<Rightarrow> invalidate_loop store ks s2))
      else (None, s))"

text \<open>Lines 123 to 129: the callback of \<^verbatim>\<open>.catch\<close>; it always throws \<open>e\<close> again.\<close>

definition catch_callback ::
  "nat \<Rightarrow> 'e \<Rightarrow> ('r, 'e, 'p, 'k) mutation_state \<Rightarrow> ('r, 'e, 'p, 'k) mutation_state"
where
  "catch_callback promise e s =
     (if pendingPromise s = Some promise then s\<lparr>error := Some e, status := Error\<rparr> else s)"

text \<open>Lines 134 to 138.\<close>

definition reset :: "('r, 'e, 'p, 'k) mutation_state \<Rightarrow> ('r, 'e, 'p, 'k) mutation_state" where
  "reset s = s\<lparr>data := None, error := None, status := Pending\<rparr>"

subsection \<open>Promise reactions\<close>

text \<open>
  The user's promise of call \<open>promise\<close> settles with \<open>outcome\<close>, and the reaction of \<^verbatim>\<open>.then\<close>
  runs: a rejection passes through (there is no rejection handler), a fulfilment runs
  \<open>then_callback\<close>, and the promise made by \<^verbatim>\<open>.then\<close> settles with the value the callback
  returns or the exception it throws.
\<close>

definition then_reaction ::
  "('r, 'e, 'p, 'k) UseMutationOptions \<Rightarrow> ('e, 'k) QueryCache \<Rightarrow> nat \<Rightarrow> 'p \<Rightarrow> 'e + 'r \<Rightarrow>
     ('r, 'e, 'p, 'k) mutation_state \<Rightarrow> ('r, 'e, 'p, 'k) mutation_state"
where
  "then_reaction options store promise args outcome s =
     (case outcome of
        Inl e \<Rightarrow> s\<lparr>promises := (promises s)(promise := Some (ThenSettled (Inl e)))\<rparr>
      | Inr d \<Rightarrow>
          (case then_callback options store promise args d s of
             (None, s1) \<Rightarrow> s1\<lparr>promises := (promises s1)(promise := Some (ThenSettled (Inr d)))\<rparr>
           | (Some x, s1) \<Rightarrow> s1\<lparr>promises := (promises s1)(promise := Some (ThenSettled (Inl x)))\<rparr>))"

text \<open>
  The reaction of \<^verbatim>\<open>.catch\<close>, a later job: a fulfilment passes through, a rejection runs
  \<open>catch_callback\<close>, which throws it again. Either way the promise \<^verbatim>\<open>mutate\<close> returned settles
  with \<open>r\<close>.
\<close>

definition catch_reaction ::
  "nat \<Rightarrow> 'e + 'r \<Rightarrow> ('r, 'e, 'p, 'k) mutation_state \<Rightarrow> ('r, 'e, 'p, 'k) mutation_state"
where
  "catch_reaction promise r s =
     (case r of
        Inr d \<Rightarrow> s\<lparr>promises := (promises s)(promise := Some (Settled (Inr d)))\<rparr>
      | Inl e \<Rightarrow>
          (let s1 = catch_callback promise e s in
           s1\<lparr>promises := (promises s1)(promise := Some (Settled (Inl e)))\<rparr>))"

text \<open>
  What can happen to a controller: a call of \<^verbatim>\<open>mutate\<close>, the settlement of the user's promise
  of a call, the queued reaction of \<^verbatim>\<open>.catch\<close>, a call of \<^verbatim>\<open>reset\<close>. A settlement is possible only
  for a chain in the matching stage (\<open>None\<close> otherwise): a promise settles once.
\<close>

datatype ('r, 'e, 'p) event =
  Mutate 'p "'e op_call"
  | OpSettles nat "'e + 'r"
  | CatchReaction nat
  | Reset

definition step ::
  "('r, 'e, 'p, 'k) UseMutationOptions \<Rightarrow> ('e, 'k) QueryCache \<Rightarrow> ('r, 'e, 'p) event \<Rightarrow>
     ('r, 'e, 'p, 'k) mutation_state \<Rightarrow> ('r, 'e, 'p, 'k) mutation_state option"
where
  "step options store ev s =
     (case ev of
        Mutate args call \<Rightarrow> Some (snd (mutate args call s))
      | OpSettles promise outcome \<Rightarrow>
          (case promises s promise of
             Some (OpPending args) \<Rightarrow> Some (then_reaction options store promise args outcome s)
           | _ \<Rightarrow> None)
      | CatchReaction promise \<Rightarrow>
          (case promises s promise of
             Some (ThenSettled r) \<Rightarrow> Some (catch_reaction promise r s)
           | _ \<Rightarrow> None)
      | Reset \<Rightarrow> Some (reset s))"

fun run ::
  "('r, 'e, 'p, 'k) UseMutationOptions \<Rightarrow> ('e, 'k) QueryCache \<Rightarrow> ('r, 'e, 'p) event list \<Rightarrow>
     ('r, 'e, 'p, 'k) mutation_state \<Rightarrow> ('r, 'e, 'p, 'k) mutation_state option"
where
  "run options store [] s = Some s"
| "run options store (ev # evs) s =
     (case step options store ev s of
        None \<Rightarrow> None
      | Some s1 \<Rightarrow> run options store evs s1)"

text \<open>
  A settlement with nothing in between: the user's promise settles and both reactions run.
\<close>

definition settle ::
  "('r, 'e, 'p, 'k) UseMutationOptions \<Rightarrow> ('e, 'k) QueryCache \<Rightarrow> nat \<Rightarrow> 'e + 'r \<Rightarrow>
     ('r, 'e, 'p, 'k) mutation_state \<Rightarrow> ('r, 'e, 'p, 'k) mutation_state option"
where
  "settle options store promise outcome s =
     run options store [OpSettles promise outcome, CatchReaction promise] s"

text \<open>What the promise returned by \<^verbatim>\<open>mutate\<close> has settled with, once it has.\<close>

definition returned ::
  "('r, 'e, 'p, 'k) mutation_state \<Rightarrow> nat \<Rightarrow> ('e + 'r) option"
where
  "returned s promise =
     (case promises s promise of Some (Settled r) \<Rightarrow> Some r | _ \<Rightarrow> None)"

text \<open>
  The state the callers share: the three observable fields, and the calls made so far to
  \<^verbatim>\<open>options.keys\<close> and to the store.
\<close>

definition shared ::
  "('r, 'e, 'p, 'k) mutation_state \<Rightarrow>
     UseQueryStatus \<times> 'r option \<times> 'e option \<times> ('r \<times> 'p) list \<times> 'k list"
where
  "shared s = (status s, data s, error s, keysCalls s, invalidated s)"

subsection \<open>What the callback of then does, as values\<close>

text \<open>
  The loop and the callback written as functions of their inputs: the keys submitted to the
  store, and the exception thrown. The lemmas \<open>invalidate_loop_eq\<close> and \<open>then_callback_eq\<close>
  below prove that the code computes exactly these.
\<close>

fun loop_submitted :: "('e, 'k) QueryCache \<Rightarrow> 'k list \<Rightarrow> 'k list" where
  "loop_submitted store [] = []"
| "loop_submitted store (key # rest) =
     key # (case invalidateEntry store key of Some x \<Rightarrow> [] | None \<Rightarrow> loop_submitted store rest)"

fun loop_thrown :: "('e, 'k) QueryCache \<Rightarrow> 'k list \<Rightarrow> 'e option" where
  "loop_thrown store [] = None"
| "loop_thrown store (key # rest) =
     (case invalidateEntry store key of Some x \<Rightarrow> Some x | None \<Rightarrow> loop_thrown store rest)"

definition cb_thrown ::
  "('r, 'e, 'p, 'k) UseMutationOptions \<Rightarrow> ('e, 'k) QueryCache \<Rightarrow> 'r \<Rightarrow> 'p \<Rightarrow> 'e option"
where
  "cb_thrown options store d args =
     (case keys options of
        None \<Rightarrow> None
      | Some (StaticKeys ks) \<Rightarrow> loop_thrown store ks
      | Some (KeysFn f) \<Rightarrow>
          (case f d args of Inl x \<Rightarrow> Some x | Inr ks \<Rightarrow> loop_thrown store ks))"

definition cb_submitted ::
  "('r, 'e, 'p, 'k) UseMutationOptions \<Rightarrow> ('e, 'k) QueryCache \<Rightarrow> 'r \<Rightarrow> 'p \<Rightarrow> 'k list"
where
  "cb_submitted options store d args =
     (case keys options of
        None \<Rightarrow> []
      | Some (StaticKeys ks) \<Rightarrow> loop_submitted store ks
      | Some (KeysFn f) \<Rightarrow>
          (case f d args of Inl x \<Rightarrow> [] | Inr ks \<Rightarrow> loop_submitted store ks))"

definition cb_keysCalls ::
  "('r, 'e, 'p, 'k) UseMutationOptions \<Rightarrow> 'r \<Rightarrow> 'p \<Rightarrow> ('r \<times> 'p) list"
where
  "cb_keysCalls options d args =
     (case keys options of
        None \<Rightarrow> []
      | Some (StaticKeys ks) \<Rightarrow> []
      | Some (KeysFn f) \<Rightarrow> [(d, args)])"

text \<open>What the promise made by \<^verbatim>\<open>.then\<close> settles with.\<close>

definition then_result ::
  "('r, 'e, 'p, 'k) UseMutationOptions \<Rightarrow> ('e, 'k) QueryCache \<Rightarrow> nat \<Rightarrow> 'p \<Rightarrow> 'e + 'r \<Rightarrow>
     ('r, 'e, 'p, 'k) mutation_state \<Rightarrow> 'e + 'r"
where
  "then_result options store promise args outcome s =
     (case outcome of
        Inl e \<Rightarrow> Inl e
      | Inr d \<Rightarrow>
          (if pendingPromise s = Some promise then
             (case cb_thrown options store d args of None \<Rightarrow> Inr d | Some x \<Rightarrow> Inl x)
           else Inr d))"

text \<open>
  Two states agree for a call when the callers cannot tell them apart and the call's chain is
  at the same stage in both.
\<close>

definition agree ::
  "nat \<Rightarrow> ('r, 'e, 'p, 'k) mutation_state \<Rightarrow> ('r, 'e, 'p, 'k) mutation_state \<Rightarrow> bool"
where
  "agree promise s t =
     (shared s = shared t \<and> pendingPromise s = pendingPromise t
      \<and> promises s promise = promises t promise)"

text \<open>The events that are calls of \<^verbatim>\<open>mutate\<close>, and those that are not about other calls.\<close>

fun initiates :: "('r, 'e, 'p) event \<Rightarrow> bool" where
  "initiates (Mutate args call) = True"
| "initiates (OpSettles q outcome) = False"
| "initiates (CatchReaction q) = False"
| "initiates Reset = False"

fun concerns :: "nat \<Rightarrow> ('r, 'e, 'p) event \<Rightarrow> bool" where
  "concerns promise (Mutate args call) = True"
| "concerns promise (OpSettles q outcome) = (q = promise)"
| "concerns promise (CatchReaction q) = (q = promise)"
| "concerns promise Reset = True"

text \<open>A run from the initial state, as the callers see it afterwards.\<close>

definition shared_after ::
  "('r, 'e, 'p, 'k) UseMutationOptions \<Rightarrow> ('e, 'k) QueryCache \<Rightarrow> ('r, 'e, 'p) event list \<Rightarrow>
     (UseQueryStatus \<times> 'r option \<times> 'e option \<times> ('r \<times> 'p) list \<times> 'k list) option"
where
  "shared_after options store evs =
     (case run options store evs useMutation of None \<Rightarrow> None | Some t \<Rightarrow> Some (shared t))"

definition returned_after ::
  "('r, 'e, 'p, 'k) UseMutationOptions \<Rightarrow> ('e, 'k) QueryCache \<Rightarrow> ('r, 'e, 'p) event list \<Rightarrow>
     nat \<Rightarrow> ('e + 'r) option"
where
  "returned_after options store evs promise =
     (case run options store evs useMutation of None \<Rightarrow> None | Some t \<Rightarrow> returned t promise)"

section \<open>Supporting lemmas\<close>

lemma invalidate_loop_eq:
  "invalidate_loop store ks s =
     (loop_thrown store ks, s\<lparr>invalidated := invalidated s @ loop_submitted store ks\<rparr>)"
  by (induction ks arbitrary: s) (auto split: option.splits)

lemma loop_returns:
  "list_all (\<lambda>k. invalidateEntry store k = None) ks \<Longrightarrow>
     loop_thrown store ks = None \<and> loop_submitted store ks = ks"
  by (induction ks) auto

lemma then_callback_eq:
  "then_callback options store p a d s =
     (if pendingPromise s = Some p then
        (cb_thrown options store d a,
         s\<lparr>data := Some d, error := None, status := Success,
           keysCalls := keysCalls s @ cb_keysCalls options d a,
           invalidated := invalidated s @ cb_submitted options store d a\<rparr>)
      else (None, s))"
  by (simp add: then_callback_def cb_thrown_def cb_submitted_def cb_keysCalls_def
      invalidate_loop_eq Let_def split: option.splits MutationKeys.splits sum.splits)

lemma then_reaction_eq:
  "then_reaction options store p a outcome s =
     (case outcome of
        Inl e \<Rightarrow> s\<lparr>promises := (promises s)(p := Some (ThenSettled (Inl e)))\<rparr>
      | Inr d \<Rightarrow>
          (if pendingPromise s = Some p then
             s\<lparr>data := Some d, error := None, status := Success,
               keysCalls := keysCalls s @ cb_keysCalls options d a,
               invalidated := invalidated s @ cb_submitted options store d a,
               promises := (promises s)(p := Some (ThenSettled
                 (then_result options store p a outcome s)))\<rparr>
           else s\<lparr>promises := (promises s)(p := Some (ThenSettled (Inr d)))\<rparr>))"
  by (simp add: then_reaction_def then_callback_eq then_result_def
      split: sum.splits option.splits)

lemma then_reaction_frame:
  "pendingPromise (then_reaction options store p a outcome s) = pendingPromise s"
  "nextPromise (then_reaction options store p a outcome s) = nextPromise s"
  "promises (then_reaction options store p a outcome s) =
     (promises s)(p := Some (ThenSettled (then_result options store p a outcome s)))"
  by (simp_all add: then_reaction_eq then_result_def split: sum.splits)

lemma catch_reaction_frame:
  "pendingPromise (catch_reaction p r s) = pendingPromise s"
  "nextPromise (catch_reaction p r s) = nextPromise s"
  "promises (catch_reaction p r s) = (promises s)(p := Some (Settled r))"
  "data (catch_reaction p r s) = data s"
  "keysCalls (catch_reaction p r s) = keysCalls s"
  "invalidated (catch_reaction p r s) = invalidated s"
  by (simp_all add: catch_reaction_def catch_callback_def Let_def split: sum.splits)

lemma then_reaction_stale:
  "pendingPromise s \<noteq> Some p \<Longrightarrow>
     then_reaction options store p a outcome s =
       s\<lparr>promises := (promises s)(p := Some (ThenSettled outcome))\<rparr>"
  by (simp add: then_reaction_eq split: sum.splits)

lemma catch_reaction_stale:
  "pendingPromise s \<noteq> Some p \<Longrightarrow>
     catch_reaction p r s = s\<lparr>promises := (promises s)(p := Some (Settled r))\<rparr>"
  by (simp add: catch_reaction_def catch_callback_def Let_def split: sum.splits)

lemma agree_refl: "agree p s s"
  by (simp add: agree_def)

lemma agree_sym: "agree p s t \<Longrightarrow> agree p t s"
  by (simp add: agree_def)

lemma agree_trans: "agree p s t \<Longrightarrow> agree p t u \<Longrightarrow> agree p s u"
  by (simp add: agree_def)

lemma then_reaction_agree:
  "agree p s t \<Longrightarrow>
     agree p (then_reaction options store p a outcome s) (then_reaction options store p a outcome t)"
  by (simp add: agree_def shared_def then_reaction_eq then_result_def split: sum.splits)

lemma catch_reaction_agree:
  "agree p s t \<Longrightarrow> agree p (catch_reaction p r s) (catch_reaction p r t)"
  by (simp add: agree_def shared_def catch_reaction_def catch_callback_def Let_def
      split: sum.splits)

lemma reset_agree: "agree p s t \<Longrightarrow> agree p (reset s) (reset t)"
  by (simp add: agree_def shared_def reset_def)

lemma then_reaction_other:
  "pendingPromise s = Some p \<Longrightarrow> q \<noteq> p \<Longrightarrow>
     agree p (then_reaction options store q a outcome s) s"
  by (simp add: agree_def shared_def then_reaction_stale)

lemma catch_reaction_other:
  "pendingPromise s = Some p \<Longrightarrow> q \<noteq> p \<Longrightarrow> agree p (catch_reaction q r s) s"
  by (simp add: agree_def shared_def catch_reaction_stale)

lemma agree_shared: "agree p s t \<Longrightarrow> shared s = shared t"
  by (simp add: agree_def)

lemma step_pending:
  "\<not> initiates ev \<Longrightarrow> step options store ev s = Some t \<Longrightarrow> pendingPromise t = pendingPromise s"
  by (cases ev)
    (auto simp: step_def then_reaction_frame catch_reaction_frame reset_def
      split: option.splits chain_stage.splits)

lemma step_nextPromise_mono:
  "step options store ev s = Some t \<Longrightarrow> nextPromise s \<le> nextPromise t"
  by (cases ev)
    (auto simp: step_def then_reaction_frame catch_reaction_frame reset_def mutate_def Let_def
      split: option.splits chain_stage.splits op_call.splits)

lemma run_nextPromise_mono:
  "run options store evs s = Some t \<Longrightarrow> nextPromise s \<le> nextPromise t"
proof (induction evs arbitrary: s)
  case Nil
  then show ?case by simp
next
  case (Cons ev evs)
  then obtain s1 where st: "step options store ev s = Some s1"
    and rn: "run options store evs s1 = Some t"
    by (auto split: option.splits)
  from step_nextPromise_mono [OF st] Cons.IH [OF rn] show ?case by simp
qed

lemma run_append:
  "run options store (xs @ ys) s =
     (case run options store xs s of None \<Rightarrow> None | Some t \<Rightarrow> run options store ys t)"
  by (induction xs arbitrary: s) (auto split: option.splits)

lemma step_agree:
  assumes ag: "agree p s s'"
    and cn: "concerns p ev"
    and ni: "\<not> initiates ev"
    and st: "step options store ev s = Some t"
  shows "\<exists>t'. step options store ev s' = Some t' \<and> agree p t t'"
proof (cases ev)
  case (Mutate a c)
  with ni show ?thesis by simp
next
  case (OpSettles q outcome)
  with cn have q: "q = p" by simp
  from ag have pr: "promises s' p = promises s p" by (simp add: agree_def)
  from st OpSettles q obtain a where a: "promises s p = Some (OpPending a)"
    and t: "t = then_reaction options store p a outcome s"
    by (auto simp: step_def split: option.splits chain_stage.splits)
  have "step options store ev s' = Some (then_reaction options store p a outcome s')"
    using OpSettles q pr a by (simp add: step_def)
  with t then_reaction_agree [OF ag] show ?thesis by blast
next
  case (CatchReaction q)
  with cn have q: "q = p" by simp
  from ag have pr: "promises s' p = promises s p" by (simp add: agree_def)
  from st CatchReaction q obtain r where r: "promises s p = Some (ThenSettled r)"
    and t: "t = catch_reaction p r s"
    by (auto simp: step_def split: option.splits chain_stage.splits)
  have "step options store ev s' = Some (catch_reaction p r s')"
    using CatchReaction q pr r by (simp add: step_def)
  with t catch_reaction_agree [OF ag] show ?thesis by blast
next
  case Reset
  with st have "t = reset s" by (simp add: step_def)
  moreover from Reset have "step options store ev s' = Some (reset s')" by (simp add: step_def)
  ultimately show ?thesis using reset_agree [OF ag] by blast
qed

lemma step_other:
  assumes pd: "pendingPromise s = Some p"
    and cn: "\<not> concerns p ev"
    and st: "step options store ev s = Some t"
  shows "agree p t s"
proof (cases ev)
  case (Mutate a c)
  with cn show ?thesis by simp
next
  case (OpSettles q outcome)
  with cn have q: "q \<noteq> p" by simp
  from st OpSettles obtain a where "t = then_reaction options store q a outcome s"
    by (auto simp: step_def split: option.splits chain_stage.splits)
  with then_reaction_other [OF pd q] show ?thesis by simp
next
  case (CatchReaction q)
  with cn have q: "q \<noteq> p" by simp
  from st CatchReaction obtain r where "t = catch_reaction q r s"
    by (auto simp: step_def split: option.splits chain_stage.splits)
  with catch_reaction_other [OF pd q] show ?thesis by simp
next
  case Reset
  with cn show ?thesis by simp
qed

text \<open>
  While a call is the latest one, the settlements of all other calls can be struck from any
  run without a change to what the callers see.
\<close>

lemma stale_settlements_erasable_agree:
  assumes "agree p s s'"
    and "pendingPromise s = Some p"
    and "\<not> list_ex initiates evs"
    and "run options store evs s = Some t"
  shows "\<exists>t'. run options store (filter (concerns p) evs) s' = Some t' \<and> agree p t t'"
  using assms
proof (induction evs arbitrary: s s')
  case Nil
  then show ?case by simp
next
  case (Cons ev evs)
  from Cons.prems(4) obtain s1 where st: "step options store ev s = Some s1"
    and rn: "run options store evs s1 = Some t"
    by (auto split: option.splits)
  from Cons.prems(3) have ni: "\<not> initiates ev" and nis: "\<not> list_ex initiates evs"
    by simp_all
  from step_pending [OF ni st] Cons.prems(2) have pd1: "pendingPromise s1 = Some p"
    by simp
  show ?case
  proof (cases "concerns p ev")
    case True
    from step_agree [OF Cons.prems(1) True ni st]
    obtain s1' where st': "step options store ev s' = Some s1'" and ag1: "agree p s1 s1'"
      by blast
    from Cons.IH [OF ag1 pd1 nis rn]
    obtain t' where "run options store (filter (concerns p) evs) s1' = Some t'"
      and "agree p t t'"
      by blast
    with True st' show ?thesis by simp
  next
    case False
    from step_other [OF Cons.prems(2) False st] Cons.prems(1) have "agree p s1 s'"
      by (rule agree_trans)
    from Cons.IH [OF this pd1 nis rn] False show ?thesis by simp
  qed
qed

lemma stale_settlements_erasable:
  assumes "pendingPromise s = Some p"
    and "\<not> list_ex initiates evs"
    and "run options store evs s = Some t"
  shows "\<exists>t'. run options store (filter (concerns p) evs) s = Some t' \<and> shared t' = shared t"
  using stale_settlements_erasable_agree [OF agree_refl assms] agree_shared by fastforce

lemma settle_eq:
  "promises s p = Some (OpPending a) \<Longrightarrow>
     settle options store p outcome s =
       Some (catch_reaction p (then_result options store p a outcome s)
              (then_reaction options store p a outcome s))"
  by (simp add: settle_def step_def then_reaction_frame)

lemma settle_stale:
  "promises s p = Some (OpPending a) \<Longrightarrow> pendingPromise s \<noteq> Some p \<Longrightarrow>
     settle options store p outcome s =
       Some (s\<lparr>promises := (promises s)(p := Some (Settled outcome))\<rparr>)"
  by (simp add: settle_eq then_reaction_stale catch_reaction_stale then_result_def
      split: sum.splits)

lemma mutate_Returns:
  "mutate a Returns s =
     (Inr (nextPromise s),
      s\<lparr>status := Loading, pendingPromise := Some (nextPromise s),
        nextPromise := Suc (nextPromise s),
        promises := (promises s)(nextPromise s := Some (OpPending a))\<rparr>)"
  by (simp add: mutate_def Let_def)

lemma then_result_cong:
  "pendingPromise s = pendingPromise t \<Longrightarrow>
     then_result options store p a outcome s = then_result options store p a outcome t"
  by (simp add: then_result_def split: sum.splits)

lemma step_keeps_args:
  "step options store ev s = Some t \<Longrightarrow> p < nextPromise s \<Longrightarrow>
     (\<forall>b. promises s p = Some (OpPending b) \<longrightarrow> b = a) \<Longrightarrow>
     p < nextPromise t \<and> (\<forall>b. promises t p = Some (OpPending b) \<longrightarrow> b = a)"
  by (cases ev)
    (auto simp: step_def mutate_def Let_def then_reaction_frame catch_reaction_frame reset_def
      split: option.splits chain_stage.splits op_call.splits if_splits)

lemma run_keeps_args:
  "run options store evs s = Some t \<Longrightarrow> p < nextPromise s \<Longrightarrow>
     (\<forall>b. promises s p = Some (OpPending b) \<longrightarrow> b = a) \<Longrightarrow>
     p < nextPromise t \<and> (\<forall>b. promises t p = Some (OpPending b) \<longrightarrow> b = a)"
proof (induction evs arbitrary: s)
  case Nil
  then show ?case by simp
next
  case (Cons ev evs)
  from Cons.prems(1) obtain s1 where st: "step options store ev s = Some s1"
    and rn: "run options store evs s1 = Some t"
    by (auto split: option.splits)
  from step_keeps_args [OF st Cons.prems(2) Cons.prems(3)]
  have "p < nextPromise s1" and "\<forall>b. promises s1 p = Some (OpPending b) \<longrightarrow> b = a"
    by simp_all
  from Cons.IH [OF rn this] show ?case .
qed

lemma mutate_args_kept:
  assumes "run options store evs (snd (mutate a Returns s)) = Some u"
    and "promises u (nextPromise s) = Some (OpPending b)"
  shows "b = a"
proof -
  have "nextPromise s < nextPromise (snd (mutate a Returns s))"
    and "\<forall>b. promises (snd (mutate a Returns s)) (nextPromise s) = Some (OpPending b) \<longrightarrow> b = a"
    by (simp_all add: mutate_Returns)
  from run_keeps_args [OF assms(1) this] assms(2) show ?thesis by simp
qed

lemma others_only:
  "list_all (\<lambda>ev. \<not> concerns p ev) evs \<Longrightarrow>
     \<not> list_ex initiates evs \<and> filter (concerns p) evs = []"
proof (induction evs)
  case Nil
  then show ?case by simp
next
  case (Cons ev evs)
  then show ?case by (cases ev) simp_all
qed

text \<open>
  The promise a call returned settles with this call's own outcome whenever the callback of
  \<^verbatim>\<open>.then\<close> does not throw: when the call is stale, when the mutation rejected, and when the
  invalidation returns normally.
\<close>

lemma settle_returned:
  "promises s p = Some (OpPending a) \<Longrightarrow>
     \<exists>t. settle options store p outcome s = Some t
       \<and> returned t p = Some (then_result options store p a outcome s)"
  by (simp add: settle_eq returned_def catch_reaction_frame)

lemma then_result_own:
  "pendingPromise s \<noteq> Some p \<or> cb_thrown options store d a = None \<Longrightarrow>
     then_result options store p a (Inr d) s = Inr d"
  "then_result options store p a (Inl e) s = Inl e"
  by (auto simp: then_result_def)

lemma settle_rejected:
  assumes pd: "pendingPromise s = Some p"
    and pr: "promises s p = Some (OpPending a)"
  shows "\<exists>t. settle options store p (Inl e) s = Some t
           \<and> returned t p = Some (Inl e)
           \<and> status t = Error \<and> error t = Some e \<and> data t = data s
           \<and> keysCalls t = keysCalls s \<and> invalidated t = invalidated s"
  using pd
  by (simp add: settle_eq [OF pr] returned_def catch_reaction_def catch_callback_def
      then_reaction_eq then_result_def Let_def)

lemmas run_eval =
  shared_after_def returned_after_def shared_def returned_def step_def mutate_def
  then_reaction_def then_callback_def catch_reaction_def catch_callback_def reset_def
  useMutation_def Let_def

section \<open>Properties\<close>

subsection \<open>The initial state\<close>

text \<open>
  C6. A controller that has just been made, before any call of \<^verbatim>\<open>mutate\<close>, has the status
  \<^verbatim>\<open>'pending'\<close> (the specification's idle state: the one \<^verbatim>\<open>reset\<close> restores, and none of
  loading, success, error), no data, no error, and \<^verbatim>\<open>isLoading\<close> is false.
\<close>

theorem useMutation_idle_default:
  "status (useMutation :: ('r, 'e, 'p, 'k) mutation_state) = Pending
   \<and> status (reset (s :: ('r, 'e, 'p, 'k) mutation_state)) = status (useMutation :: ('r, 'e, 'p, 'k) mutation_state)
   \<and> data (useMutation :: ('r, 'e, 'p, 'k) mutation_state) = None
   \<and> error (useMutation :: ('r, 'e, 'p, 'k) mutation_state) = None
   \<and> \<not> isLoading (useMutation :: ('r, 'e, 'p, 'k) mutation_state)
   \<and> pendingPromise (useMutation :: ('r, 'e, 'p, 'k) mutation_state) = None"
  by (simp add: useMutation_def isLoading_def reset_def)

subsection \<open>Two calls in flight\<close>

text \<open>
  C1. Call A is made; then anything happens, but A's promise has not settled (\<open>unsettled\<close>); then
  call B is made. From there:
  \<^item> A and B are different promises and B is the pending one;
  \<^item> A's settlement changes nothing the callers see (\<open>tA\<close>);
  \<^item> whether A settles before B (\<open>tAB\<close>) or B before A (\<open>tBA\<close>), the callers see what they see
    when B alone settles (\<open>tB\<close>); when B fulfils with \<open>d\<close> the data is \<open>d\<close> in both orders, whatever
    A's outcome was;
  \<^item> more generally, in any run of settlements and resets after B's call, the settlements of
    all calls other than B can be struck out without a change to what the callers see.
\<close>

theorem mutate_last_initiated_wins:
  fixes s u :: "('r, 'e, 'p, 'k) mutation_state"
  assumes later: "run options store evs (snd (mutate aA Returns s)) = Some u"
    and unsettled: "promises u (nextPromise s) = Some (OpPending aA)"
  shows "\<exists>tA tB tAB tBA.
      fst (mutate aA Returns s) = Inr (nextPromise s)
    \<and> fst (mutate aB Returns u) = Inr (nextPromise u)
    \<and> nextPromise s \<noteq> nextPromise u
    \<and> pendingPromise (snd (mutate aB Returns u)) = Some (nextPromise u)
    \<and> settle options store (nextPromise s) oA (snd (mutate aB Returns u)) = Some tA
    \<and> shared tA = shared (snd (mutate aB Returns u))
    \<and> settle options store (nextPromise u) oB (snd (mutate aB Returns u)) = Some tB
    \<and> run options store
          [OpSettles (nextPromise s) oA, CatchReaction (nextPromise s),
           OpSettles (nextPromise u) oB, CatchReaction (nextPromise u)]
          (snd (mutate aB Returns u)) = Some tAB
    \<and> run options store
          [OpSettles (nextPromise u) oB, CatchReaction (nextPromise u),
           OpSettles (nextPromise s) oA, CatchReaction (nextPromise s)]
          (snd (mutate aB Returns u)) = Some tBA
    \<and> shared tAB = shared tB
    \<and> shared tBA = shared tB
    \<and> (case oB of
          Inr d \<Rightarrow> data tAB = Some d \<and> data tBA = Some d
        | Inl e \<Rightarrow> error tAB = Some e \<and> error tBA = Some e)
    \<and> (\<forall>evs' t. \<not> list_ex initiates evs' \<longrightarrow>
          run options store evs' (snd (mutate aB Returns u)) = Some t \<longrightarrow>
          (\<exists>t'. run options store (filter (concerns (nextPromise u)) evs')
                  (snd (mutate aB Returns u)) = Some t'
             \<and> shared t' = shared t))"
proof -
  let ?pA = "nextPromise s" and ?pB = "nextPromise u"
  let ?sB = "snd (mutate aB Returns u)"
  have sB: "?sB = u\<lparr>status := Loading, pendingPromise := Some ?pB, nextPromise := Suc ?pB,
      promises := (promises u)(?pB := Some (OpPending aB))\<rparr>"
    by (simp add: mutate_Returns)
  have c1: "fst (mutate aA Returns s) = Inr ?pA" and c2: "fst (mutate aB Returns u) = Inr ?pB"
    by (simp_all add: mutate_Returns)
  have "nextPromise (snd (mutate aA Returns s)) = Suc ?pA"
    by (simp add: mutate_Returns)
  with run_nextPromise_mono [OF later] have lt: "?pA < ?pB" by simp
  then have c3: "?pA \<noteq> ?pB" by simp
  have pdB: "pendingPromise ?sB = Some ?pB" by (simp add: sB)
  have prA: "promises ?sB ?pA = Some (OpPending aA)" using c3 unsettled by (simp add: sB)
  have prB: "promises ?sB ?pB = Some (OpPending aB)" by (simp add: sB)
  define tA where "tA = ?sB\<lparr>promises := (promises ?sB)(?pA := Some (Settled oA))\<rparr>"
  define tB where "tB = catch_reaction ?pB (then_result options store ?pB aB oB ?sB)
      (then_reaction options store ?pB aB oB ?sB)"
  define tAB where "tAB = catch_reaction ?pB (then_result options store ?pB aB oB tA)
      (then_reaction options store ?pB aB oB tA)"
  define tBA where "tBA = tB\<lparr>promises := (promises tB)(?pA := Some (Settled oA))\<rparr>"
  have stA: "settle options store ?pA oA ?sB = Some tA"
    using settle_stale [OF prA] pdB c3 by (simp add: tA_def)
  have shA: "shared tA = shared ?sB" by (simp add: tA_def shared_def)
  have stB: "settle options store ?pB oB ?sB = Some tB"
    using settle_eq [OF prB] by (simp add: tB_def)
  have prB': "promises tA ?pB = Some (OpPending aB)" using c3 prB by (simp add: tA_def)
  have stAB: "settle options store ?pB oB tA = Some tAB"
    using settle_eq [OF prB'] by (simp add: tAB_def)
  have "run options store
      ([OpSettles ?pA oA, CatchReaction ?pA] @ [OpSettles ?pB oB, CatchReaction ?pB]) ?sB = Some tAB"
    by (simp only: run_append stA [unfolded settle_def] stAB [unfolded settle_def] option.case)
  then have rAB: "run options store
      [OpSettles ?pA oA, CatchReaction ?pA, OpSettles ?pB oB, CatchReaction ?pB] ?sB = Some tAB"
    by (simp only: append.simps)
  have pdtB: "pendingPromise tB = Some ?pB"
    by (simp add: tB_def catch_reaction_frame then_reaction_frame pdB)
  have prAtB: "promises tB ?pA = Some (OpPending aA)"
    using c3 prA by (simp add: tB_def catch_reaction_frame then_reaction_frame)
  have stBA: "settle options store ?pA oA tB = Some tBA"
    using settle_stale [OF prAtB] pdtB c3 by (simp add: tBA_def)
  have "run options store
      ([OpSettles ?pB oB, CatchReaction ?pB] @ [OpSettles ?pA oA, CatchReaction ?pA]) ?sB = Some tBA"
    by (simp only: run_append stB [unfolded settle_def] stBA [unfolded settle_def] option.case)
  then have rBA: "run options store
      [OpSettles ?pB oB, CatchReaction ?pB, OpSettles ?pA oA, CatchReaction ?pA] ?sB = Some tBA"
    by (simp only: append.simps)
  have agA: "agree ?pB tA ?sB" using c3 by (simp add: agree_def shared_def tA_def)
  have trA: "then_result options store ?pB aB oB tA = then_result options store ?pB aB oB ?sB"
    by (rule then_result_cong) (simp add: tA_def)
  have "agree ?pB tAB tB"
    unfolding tAB_def tB_def trA
    by (rule catch_reaction_agree [OF then_reaction_agree [OF agA]])
  then have shAB: "shared tAB = shared tB" by (rule agree_shared)
  have shBA: "shared tBA = shared tB" by (simp add: tBA_def shared_def)
  have "case oB of Inr d \<Rightarrow> data tB = Some d | Inl e \<Rightarrow> error tB = Some e"
    by (cases oB)
      (simp_all add: tB_def catch_reaction_def catch_callback_def then_reaction_eq
        then_result_def pdB Let_def split: option.splits)
  with shAB shBA
  have cs: "case oB of Inr d \<Rightarrow> data tAB = Some d \<and> data tBA = Some d
      | Inl e \<Rightarrow> error tAB = Some e \<and> error tBA = Some e"
    by (cases oB) (simp_all add: shared_def)
  have er: "\<forall>evs' t. \<not> list_ex initiates evs' \<longrightarrow>
      run options store evs' ?sB = Some t \<longrightarrow>
      (\<exists>t'. run options store (filter (concerns ?pB) evs') ?sB = Some t' \<and> shared t' = shared t)"
    using stale_settlements_erasable [OF pdB] by blast
  show ?thesis
    by (rule exI [of _ tA], rule exI [of _ tB], rule exI [of _ tAB], rule exI [of _ tBA])
      (intro conjI c1 c2 c3 pdB stA shA stB rAB rBA shAB shBA cs er)
qed

theorem mutate_last_initiated_wins_witness:
  "run \<lparr>keys = None\<rparr> \<lparr>invalidateEntry = (\<lambda>k. None)\<rparr> []
      (snd (mutate ''A'' Returns (useMutation :: (nat, string, string, string) mutation_state)))
     = Some (snd (mutate ''A'' Returns useMutation))
   \<and> promises (snd (mutate ''A'' Returns (useMutation :: (nat, string, string, string) mutation_state)))
       (nextPromise (useMutation :: (nat, string, string, string) mutation_state))
     = Some (OpPending ''A'')
   \<and> (\<exists>tAB tBA.
        run \<lparr>keys = None\<rparr> \<lparr>invalidateEntry = (\<lambda>k. None)\<rparr>
          [OpSettles 0 (Inr 1), CatchReaction 0, OpSettles 1 (Inr 2), CatchReaction 1]
          (snd (mutate ''B'' Returns
            (snd (mutate ''A'' Returns (useMutation :: (nat, string, string, string) mutation_state)))))
          = Some tAB
      \<and> run \<lparr>keys = None\<rparr> \<lparr>invalidateEntry = (\<lambda>k. None)\<rparr>
          [OpSettles 1 (Inr 2), CatchReaction 1, OpSettles 0 (Inr 1), CatchReaction 0]
          (snd (mutate ''B'' Returns
            (snd (mutate ''A'' Returns (useMutation :: (nat, string, string, string) mutation_state)))))
          = Some tBA
      \<and> data tAB = Some 2 \<and> data tBA = Some 2 \<and> shared tAB = shared tBA)"
proof -
  let ?o = "\<lparr>keys = None\<rparr> :: (nat, string, string, string) UseMutationOptions"
  let ?c = "\<lparr>invalidateEntry = (\<lambda>k. None)\<rparr> :: (string, string) QueryCache"
  let ?s = "useMutation :: (nat, string, string, string) mutation_state"
  let ?u = "snd (mutate ''A'' Returns ?s)"
  have h1: "run ?o ?c [] ?u = Some ?u" by simp
  have h2: "promises ?u (nextPromise ?s) = Some (OpPending ''A'')"
    by (simp add: mutate_Returns)
  have n0: "nextPromise ?s = 0" by (simp add: useMutation_def)
  have n1: "nextPromise ?u = 1" by (simp add: mutate_Returns useMutation_def)
  from mutate_last_initiated_wins [OF h1 h2, of "''B''" "Inr 1" "Inr 2"]
  obtain tA tB tAB tBA where
    "run ?o ?c [OpSettles 0 (Inr 1), CatchReaction 0, OpSettles 1 (Inr 2), CatchReaction 1]
       (snd (mutate ''B'' Returns ?u)) = Some tAB"
    and "run ?o ?c [OpSettles 1 (Inr 2), CatchReaction 1, OpSettles 0 (Inr 1), CatchReaction 0]
       (snd (mutate ''B'' Returns ?u)) = Some tBA"
    and "shared tAB = shared tB" and "shared tBA = shared tB"
    and "data tAB = Some 2 \<and> data tBA = Some 2"
    unfolding n0 n1 by auto
  with h1 h2 show ?thesis by auto
qed

subsection \<open>An exception in the invalidation\<close>

text \<open>
  C2 (the code differs). The claim: the promise \<^verbatim>\<open>mutate\<close> returns settles with the outcome of
  that call's mutation. Evaluated here: \<^verbatim>\<open>options.keys\<close> is a function that throws
  \<^verbatim>\<open>'boom'\<close>; one call is made and its mutation fulfils with 42. The callback of \<^verbatim>\<open>.then\<close>
  throws, so the promise returned by \<^verbatim>\<open>mutate\<close> rejects with \<^verbatim>\<open>'boom'\<close> although the mutation
  fulfilled. (\<open>settle_returned\<close> and \<open>then_result_own\<close> above give the cases where the claim
  holds.)
\<close>

theorem mutate_promise_rejects_after_invalidation_throws:
  "returned_after
     \<lparr>keys = Some (KeysFn (\<lambda>d a. Inl ''boom''))\<rparr>
     \<lparr>invalidateEntry = (\<lambda>k :: string. None)\<rparr>
     [Mutate ''x'' Returns, OpSettles 0 (Inr (42 :: nat)), CatchReaction 0] 0
   = Some (Inl ''boom'')"
  by (simp add: run_eval)

text \<open>
  C3 (the code differs). The claim: when the mutation fulfils and the invalidation throws, the
  status stays success. Evaluated here, for a keys function that throws and for a store that
  throws: after the reaction of \<^verbatim>\<open>.then\<close> the status is success; the exception then reaches
  the callback of \<^verbatim>\<open>.catch\<close>, which sets the error and the status \<^verbatim>\<open>'error'\<close>, while the data
  is the new result.
\<close>

theorem invalidation_throw_flips_status_to_error:
  "shared_after
     \<lparr>keys = Some (KeysFn (\<lambda>d a. Inl ''boom''))\<rparr>
     \<lparr>invalidateEntry = (\<lambda>k :: string. None)\<rparr>
     [Mutate ''x'' Returns, OpSettles 0 (Inr (42 :: nat))]
   = Some (Success, Some 42, None, [(42, ''x'')], [])
   \<and> shared_after
     \<lparr>keys = Some (KeysFn (\<lambda>d a. Inl ''boom''))\<rparr>
     \<lparr>invalidateEntry = (\<lambda>k :: string. None)\<rparr>
     [Mutate ''x'' Returns, OpSettles 0 (Inr (42 :: nat)), CatchReaction 0]
   = Some (Error, Some 42, Some ''boom'', [(42, ''x'')], [])
   \<and> shared_after
     \<lparr>keys = Some (StaticKeys [''K''])\<rparr>
     \<lparr>invalidateEntry = (\<lambda>k. Some ''down'')\<rparr>
     [Mutate ''x'' Returns, OpSettles 0 (Inr (42 :: nat)), CatchReaction 0]
   = Some (Error, Some 42, Some ''down'', [], [''K''])"
  by (simp add: run_eval)

subsection \<open>Invalidation\<close>

text \<open>
  Where the calls of \<^verbatim>\<open>invalidateEntry\<close> return: with the static keys \<^verbatim>\<open>[K1, K2]\<close>, the
  settlement of the pending call with a fulfilment calls \<^verbatim>\<open>invalidateEntry\<close> once for \<^verbatim>\<open>K1\<close> and
  then once for \<^verbatim>\<open>K2\<close>, and makes no other call; the status is success and the promise of
  the call fulfils. The settlement of any call with a rejection makes no call of
  \<^verbatim>\<open>invalidateEntry\<close>.
\<close>

lemma static_keys_returning_store:
  assumes ks: "keys options = Some (StaticKeys [K1, K2])"
    and pd: "pendingPromise s = Some p"
    and pr: "promises s p = Some (OpPending a)"
    and prq: "promises s q = Some (OpPending b)"
    and r1: "invalidateEntry store K1 = None"
    and r2: "invalidateEntry store K2 = None"
  shows "(\<exists>t. settle options store p (Inr d) s = Some t \<and> data t = Some d
            \<and> status t = Success \<and> returned t p = Some (Inr d)
            \<and> invalidated t = invalidated s @ [K1, K2])
       \<and> (\<exists>t. settle options store q (Inl e) s = Some t \<and> invalidated t = invalidated s)"
proof -
  have sub: "cb_submitted options store d a = [K1, K2]"
    and thr: "cb_thrown options store d a = None"
    using ks r1 r2 by (simp_all add: cb_submitted_def cb_thrown_def)
  have "\<exists>t. settle options store p (Inr d) s = Some t \<and> data t = Some d
      \<and> status t = Success \<and> returned t p = Some (Inr d)
      \<and> invalidated t = invalidated s @ [K1, K2]"
    using pd sub thr
    by (simp add: settle_eq [OF pr] returned_def catch_reaction_def catch_callback_def
        then_reaction_eq then_result_def Let_def)
  moreover have "\<exists>t. settle options store q (Inl e) s = Some t \<and> invalidated t = invalidated s"
    by (simp add: settle_eq [OF prq] catch_reaction_frame then_reaction_eq)
  ultimately show ?thesis by (rule conjI)
qed

text \<open>
  With a keys function \<open>f\<close>: a call is made with the arguments \<open>a\<close>; then anything happens, but
  the call is still the pending one and has not settled. Its chain still holds exactly \<open>a\<close>,
  and its settlement with the result \<open>d\<close> calls \<open>f\<close> once, with \<open>d\<close> and \<open>a\<close>. Where \<open>f\<close> returns
  \<open>ks\<close> and the calls of \<^verbatim>\<open>invalidateEntry\<close> return, the keys \<open>ks\<close> are forwarded in order, each
  once.
\<close>

lemma function_keys_returning_store:
  assumes fk: "keys options = Some (KeysFn f)"
    and later: "run options store evs (snd (mutate a Returns s)) = Some u"
    and pd: "pendingPromise u = Some (nextPromise s)"
    and unsettled: "promises u (nextPromise s) = Some (OpPending b)"
    and fr: "f d a = Inr ks"
    and rt: "list_all (\<lambda>k. invalidateEntry store k = None) ks"
  shows "b = a
       \<and> (\<exists>t. settle options store (nextPromise s) (Inr d) u = Some t
            \<and> status t = Success \<and> returned t (nextPromise s) = Some (Inr d)
            \<and> keysCalls t = keysCalls u @ [(d, a)]
            \<and> invalidated t = invalidated u @ ks)"
proof -
  from mutate_args_kept [OF later unsettled] have ba: "b = a" .
  have kc: "cb_keysCalls options d a = [(d, a)]"
    using fk by (simp add: cb_keysCalls_def)
  have sub: "cb_submitted options store d a = ks"
    and thr: "cb_thrown options store d a = None"
    using fk fr loop_returns [OF rt] by (simp_all add: cb_submitted_def cb_thrown_def)
  from unsettled ba have pr: "promises u (nextPromise s) = Some (OpPending a)" by simp
  have "\<exists>t. settle options store (nextPromise s) (Inr d) u = Some t
      \<and> status t = Success \<and> returned t (nextPromise s) = Some (Inr d)
      \<and> keysCalls t = keysCalls u @ [(d, a)]
      \<and> invalidated t = invalidated u @ ks"
    using pd kc sub thr
    by (simp add: settle_eq [OF pr] returned_def catch_reaction_def catch_callback_def
        then_reaction_eq then_result_def Let_def)
  with ba show ?thesis by (rule conjI)
qed

text \<open>
  C4 (the code differs). The claim: with the static keys \<^verbatim>\<open>[K1, K2]\<close>, every authoritative
  successful mutation calls \<^verbatim>\<open>invalidateEntry\<close> once for \<^verbatim>\<open>K1\<close> and once for \<^verbatim>\<open>K2\<close>. Evaluated here:
  the store's \<^verbatim>\<open>invalidateEntry\<close> throws \<^verbatim>\<open>'down'\<close> for \<^verbatim>\<open>K1\<close>; one call is made and its mutation
  fulfils with 42. The exception is not contained: the loop ends at the first call, so \<^verbatim>\<open>K2\<close>
  is never submitted, and the exception goes on to the callback of \<^verbatim>\<open>.catch\<close> (status
  \<^verbatim>\<open>'error'\<close>, the promise rejected), as in C2 and C3. Where the store's calls return, the claim
  holds (\<open>static_keys_returning_store\<close>).
\<close>

theorem static_keys_second_key_skipped:
  "shared_after
     \<lparr>keys = Some (StaticKeys [''K1'', ''K2''])\<rparr>
     \<lparr>invalidateEntry = (\<lambda>k. if k = ''K1'' then Some ''down'' else None)\<rparr>
     [Mutate ''x'' Returns, OpSettles 0 (Inr (42 :: nat))]
   = Some (Success, Some 42, None, [], [''K1''])
   \<and> shared_after
     \<lparr>keys = Some (StaticKeys [''K1'', ''K2''])\<rparr>
     \<lparr>invalidateEntry = (\<lambda>k. if k = ''K1'' then Some ''down'' else None)\<rparr>
     [Mutate ''x'' Returns, OpSettles 0 (Inr (42 :: nat)), CatchReaction 0]
   = Some (Error, Some 42, Some ''down'', [], [''K1''])
   \<and> returned_after
     \<lparr>keys = Some (StaticKeys [''K1'', ''K2''])\<rparr>
     \<lparr>invalidateEntry = (\<lambda>k. if k = ''K1'' then Some ''down'' else None)\<rparr>
     [Mutate ''x'' Returns, OpSettles 0 (Inr (42 :: nat)), CatchReaction 0] 0
   = Some (Inl ''down'')"
  by (simp add: run_eval)

text \<open>
  C5 (the code differs). The claim: with a keys function, an authoritative successful
  settlement calls the function once, with the result and the arguments of the call, and
  forwards each key it returns to \<^verbatim>\<open>invalidateEntry\<close> once. Evaluated here: the function returns
  \<^verbatim>\<open>[K1, K2]\<close> and the store's \<^verbatim>\<open>invalidateEntry\<close> throws \<^verbatim>\<open>'down'\<close> for \<^verbatim>\<open>K1\<close>; one call is made with
  the argument \<^verbatim>\<open>'x'\<close> and its mutation fulfils with 42. The function is called once, with 42
  and \<^verbatim>\<open>'x'\<close>; the exception of the store is not contained, so \<^verbatim>\<open>K2\<close> is never forwarded, and
  it goes on to the callback of \<^verbatim>\<open>.catch\<close> (status \<^verbatim>\<open>'error'\<close>, the promise rejected), as in C2
  and C3. Where the store's calls return, the claim holds (\<open>function_keys_returning_store\<close>).
\<close>

theorem function_keys_later_key_skipped:
  "shared_after
     \<lparr>keys = Some (KeysFn (\<lambda>d a. Inr [''K1'', ''K2'']))\<rparr>
     \<lparr>invalidateEntry = (\<lambda>k. if k = ''K1'' then Some ''down'' else None)\<rparr>
     [Mutate ''x'' Returns, OpSettles 0 (Inr (42 :: nat))]
   = Some (Success, Some 42, None, [(42, ''x'')], [''K1''])
   \<and> shared_after
     \<lparr>keys = Some (KeysFn (\<lambda>d a. Inr [''K1'', ''K2'']))\<rparr>
     \<lparr>invalidateEntry = (\<lambda>k. if k = ''K1'' then Some ''down'' else None)\<rparr>
     [Mutate ''x'' Returns, OpSettles 0 (Inr (42 :: nat)), CatchReaction 0]
   = Some (Error, Some 42, Some ''down'', [(42, ''x'')], [''K1''])
   \<and> returned_after
     \<lparr>keys = Some (KeysFn (\<lambda>d a. Inr [''K1'', ''K2'']))\<rparr>
     \<lparr>invalidateEntry = (\<lambda>k. if k = ''K1'' then Some ''down'' else None)\<rparr>
     [Mutate ''x'' Returns, OpSettles 0 (Inr (42 :: nat)), CatchReaction 0] 0
   = Some (Inl ''down'')"
  by (simp add: run_eval)

subsection \<open>Reset\<close>

text \<open>
  C7. \<^verbatim>\<open>reset\<close> clears the data and the error and sets the status \<^verbatim>\<open>'pending'\<close> (idle); it leaves
  \<^verbatim>\<open>pendingPromise\<close> and every chain as they were. So when a call is made and \<^verbatim>\<open>reset\<close> follows,
  the later settlement of that call still writes the state: a fulfilment sets the data (and
  the status is success, unless the invalidation threw, which the promise the call returned
  shows), a rejection sets the error and the status \<^verbatim>\<open>'error'\<close>.
\<close>

theorem reset_clears_state_keeps_token:
  "data (reset s) = None \<and> error (reset s) = None \<and> status (reset s) = Pending
   \<and> pendingPromise (reset s) = pendingPromise s
   \<and> promises (reset s) = promises s
   \<and> nextPromise (reset s) = nextPromise s
   \<and> pendingPromise (reset (snd (mutate a Returns s))) = Some (nextPromise s)
   \<and> (\<exists>t. settle options store (nextPromise s) (Inr d) (reset (snd (mutate a Returns s))) = Some t
          \<and> data t = Some d
          \<and> status t = (if returned t (nextPromise s) = Some (Inr d) then Success else Error))
   \<and> (\<exists>t. settle options store (nextPromise s) (Inl e) (reset (snd (mutate a Returns s))) = Some t
          \<and> error t = Some e \<and> status t = Error \<and> data t = None)"
proof -
  let ?p = "nextPromise s"
  let ?r = "reset (snd (mutate a Returns s))"
  have pd: "pendingPromise ?r = Some ?p" by (simp add: reset_def mutate_Returns)
  have pr: "promises ?r ?p = Some (OpPending a)" by (simp add: reset_def mutate_Returns)
  have dr: "data ?r = None" by (simp add: reset_def)
  have f: "\<exists>t. settle options store ?p (Inr d) ?r = Some t \<and> data t = Some d
      \<and> status t = (if returned t ?p = Some (Inr d) then Success else Error)"
    using pd
    by (simp add: settle_eq [OF pr] returned_def catch_reaction_def catch_callback_def
        then_reaction_eq then_result_def Let_def split: option.splits)
  have r: "\<exists>t. settle options store ?p (Inl e) ?r = Some t
      \<and> error t = Some e \<and> status t = Error \<and> data t = None"
    using pd dr
    by (simp add: settle_eq [OF pr] catch_reaction_def catch_callback_def
        then_reaction_eq then_result_def Let_def)
  have g: "data (reset s) = None \<and> error (reset s) = None \<and> status (reset s) = Pending
      \<and> pendingPromise (reset s) = pendingPromise s
      \<and> promises (reset s) = promises s
      \<and> nextPromise (reset s) = nextPromise s"
    by (simp add: reset_def)
  from g pd f r show ?thesis by simp
qed

subsection \<open>Data and error\<close>

text \<open>
  C8, as stated, fails: a call fulfils with 1, a second call rejects with \<^verbatim>\<open>'E'\<close>; afterwards
  the data of the first call and the error of the second are both present.
\<close>

theorem data_and_error_both_present:
  "shared_after
     \<lparr>keys = None\<rparr>
     \<lparr>invalidateEntry = (\<lambda>k :: string. None)\<rparr>
     [Mutate ''x'' Returns, OpSettles 0 (Inr (1 :: nat)), CatchReaction 0,
      Mutate ''y'' Returns, OpSettles 1 (Inl ''E''), CatchReaction 1]
   = Some (Error, Some 1, Some ''E'', [], [])"
  by (simp add: run_eval)

text \<open>
  C8, amended. \<^verbatim>\<open>reset\<close> leaves both the data and the error absent. The settlement of the
  pending call with a rejection sets the error and leaves the data as it was (so the data of
  an earlier success stays beside it). Its settlement with a fulfilment sets the data, and
  when the promise the call returned fulfils, the error is absent.
\<close>

theorem data_error_after_reset_and_settlement:
  assumes pd: "pendingPromise s = Some p"
    and pr: "promises s p = Some (OpPending a)"
  shows "data (reset s) = None \<and> error (reset s) = None
       \<and> (\<exists>t. settle options store p (Inl e) s = Some t \<and> error t = Some e \<and> data t = data s)
       \<and> (\<exists>t. settle options store p (Inr d) s = Some t \<and> data t = Some d
              \<and> (returned t p = Some (Inr d) \<longrightarrow> error t = None))"
  using pd
  by (simp add: settle_eq [OF pr] returned_def catch_reaction_def catch_callback_def
      then_reaction_eq then_result_def reset_def Let_def split: option.splits)

theorem data_error_after_reset_and_settlement_witness:
  "pendingPromise (snd (mutate ''x'' Returns
      (useMutation :: (nat, string, string, string) mutation_state))) = Some 0
   \<and> promises (snd (mutate ''x'' Returns
      (useMutation :: (nat, string, string, string) mutation_state))) 0 = Some (OpPending ''x'')
   \<and> (\<exists>t. settle \<lparr>keys = None\<rparr> \<lparr>invalidateEntry = (\<lambda>k :: string. None)\<rparr> 0 (Inl ''E'')
            (snd (mutate ''x'' Returns
              (useMutation :: (nat, string, string, string) mutation_state))) = Some t
          \<and> error t = Some ''E'' \<and> data t = None)
   \<and> (\<exists>t. settle \<lparr>keys = None\<rparr> \<lparr>invalidateEntry = (\<lambda>k :: string. None)\<rparr> 0 (Inr 42)
            (snd (mutate ''x'' Returns
              (useMutation :: (nat, string, string, string) mutation_state))) = Some t
          \<and> data t = Some 42 \<and> returned t 0 = Some (Inr 42) \<and> error t = None)"
proof -
  let ?o = "\<lparr>keys = None\<rparr> :: (nat, string, string, string) UseMutationOptions"
  let ?c = "\<lparr>invalidateEntry = (\<lambda>k. None)\<rparr> :: (string, string) QueryCache"
  let ?s = "snd (mutate ''x'' Returns (useMutation :: (nat, string, string, string) mutation_state))"
  have h1: "pendingPromise ?s = Some 0" by (simp add: mutate_Returns useMutation_def)
  have h2: "promises ?s 0 = Some (OpPending ''x'')" by (simp add: mutate_Returns useMutation_def)
  have d0: "data ?s = None" by (simp add: mutate_Returns useMutation_def)
  from settle_returned [OF h2, of ?o ?c "Inr 42"]
  obtain t where st: "settle ?o ?c 0 (Inr 42) ?s = Some t" and rt: "returned t 0 = Some (Inr 42)"
    by (auto simp: then_result_def cb_thrown_def h1)
  from data_error_after_reset_and_settlement [OF h1 h2, of ?o ?c "''E''" 42] st rt
  have "(\<exists>t. settle ?o ?c 0 (Inl ''E'') ?s = Some t \<and> error t = Some ''E'' \<and> data t = None)
      \<and> (\<exists>t. settle ?o ?c 0 (Inr 42) ?s = Some t
            \<and> data t = Some 42 \<and> returned t 0 = Some (Inr 42) \<and> error t = None)"
    by (auto simp: d0)
  with h1 h2 show ?thesis by blast
qed

subsection \<open>A rejected mutation\<close>

text \<open>
  C9. A call is made in the state \<open>s\<close>; before its mutation settles, only settlements of
  other calls happen. When its mutation then rejects with \<open>e\<close>: the promise \<^verbatim>\<open>mutate\<close> returned
  rejects with \<open>e\<close>, the status is \<^verbatim>\<open>'error'\<close>, the error is \<open>e\<close>, and the data is what it was
  in \<open>s\<close>, before the call. No key is invalidated.
\<close>

theorem rejection_sets_error_keeps_data:
  assumes later: "run options store evs (snd (mutate a Returns s)) = Some u"
    and others: "list_all (\<lambda>ev. \<not> concerns (nextPromise s) ev) evs"
  shows "\<exists>t. settle options store (nextPromise s) (Inl e) u = Some t
           \<and> returned t (nextPromise s) = Some (Inl e)
           \<and> status t = Error \<and> error t = Some e \<and> data t = data s
           \<and> keysCalls t = keysCalls s \<and> invalidated t = invalidated s"
proof -
  let ?p = "nextPromise s"
  let ?s1 = "snd (mutate a Returns s)"
  have pd1: "pendingPromise ?s1 = Some ?p" by (simp add: mutate_Returns)
  from others_only [OF others] have ni: "\<not> list_ex initiates evs"
    and fl: "filter (concerns ?p) evs = []"
    by simp_all
  from stale_settlements_erasable_agree [OF agree_refl pd1 ni later] fl
  have ag: "agree ?p u ?s1" by simp
  then have pd: "pendingPromise u = Some ?p"
    and pr: "promises u ?p = Some (OpPending a)"
    and sh: "data u = data s" "keysCalls u = keysCalls s" "invalidated u = invalidated s"
    by (simp_all add: agree_def shared_def mutate_Returns)
  from settle_rejected [OF pd pr, of options store e] sh show ?thesis by simp
qed

theorem rejection_sets_error_keeps_data_witness:
  "run \<lparr>keys = None\<rparr> \<lparr>invalidateEntry = (\<lambda>k :: string. None)\<rparr> []
     (snd (mutate ''y'' Returns (catch_reaction 0 (Inr 1)
       (then_reaction \<lparr>keys = None\<rparr> \<lparr>invalidateEntry = (\<lambda>k :: string. None)\<rparr> 0 ''x'' (Inr 1)
         (snd (mutate ''x'' Returns
           (useMutation :: (nat, string, string, string) mutation_state)))))))
     = Some (snd (mutate ''y'' Returns (catch_reaction 0 (Inr 1)
       (then_reaction \<lparr>keys = None\<rparr> \<lparr>invalidateEntry = (\<lambda>k :: string. None)\<rparr> 0 ''x'' (Inr 1)
         (snd (mutate ''x'' Returns useMutation))))))
   \<and> list_all (\<lambda>ev. \<not> concerns 1 ev) ([] :: (nat, string, string) event list)
   \<and> (\<exists>t. settle \<lparr>keys = None\<rparr> \<lparr>invalidateEntry = (\<lambda>k :: string. None)\<rparr> 1 (Inl ''E'')
            (snd (mutate ''y'' Returns (catch_reaction 0 (Inr 1)
              (then_reaction \<lparr>keys = None\<rparr> \<lparr>invalidateEntry = (\<lambda>k :: string. None)\<rparr> 0 ''x'' (Inr 1)
                (snd (mutate ''x'' Returns
                  (useMutation :: (nat, string, string, string) mutation_state))))))) = Some t
          \<and> returned t 1 = Some (Inl ''E'')
          \<and> status t = Error \<and> error t = Some ''E'' \<and> data t = Some 1)"
proof -
  let ?o = "\<lparr>keys = None\<rparr> :: (nat, string, string, string) UseMutationOptions"
  let ?c = "\<lparr>invalidateEntry = (\<lambda>k. None)\<rparr> :: (string, string) QueryCache"
  let ?s = "catch_reaction 0 (Inr 1)
      (then_reaction ?o ?c 0 ''x'' (Inr 1)
        (snd (mutate ''x'' Returns
          (useMutation :: (nat, string, string, string) mutation_state))))"
  let ?evs = "[] :: (nat, string, string) event list"
  have n: "nextPromise ?s = 1"
    by (simp add: mutate_Returns useMutation_def catch_reaction_frame then_reaction_frame)
  have d: "data ?s = Some 1"
    by (simp add: mutate_Returns useMutation_def catch_reaction_frame then_reaction_eq)
  have h1: "run ?o ?c ?evs (snd (mutate ''y'' Returns ?s)) = Some (snd (mutate ''y'' Returns ?s))"
    by simp
  have h2: "list_all (\<lambda>ev. \<not> concerns (nextPromise ?s) ev) ?evs" by simp
  from rejection_sets_error_keeps_data [OF h1 h2, of "''E''", unfolded d n]
  have "\<exists>t. settle ?o ?c 1 (Inl ''E'') (snd (mutate ''y'' Returns ?s)) = Some t
      \<and> returned t 1 = Some (Inl ''E'')
      \<and> status t = Error \<and> error t = Some ''E'' \<and> data t = Some 1"
    by blast
  with h1 h2 [unfolded n] show ?thesis by blast
qed

subsection \<open>While a call is loading\<close>

text \<open>
  C10. \<^verbatim>\<open>mutate\<close> sets the status \<^verbatim>\<open>'loading'\<close> before it calls the user's operation (so also
  when that call throws), and leaves the data and the error as they were. While the new call
  is the pending one, the settlements of earlier calls change none of the three: the callers
  see the status \<^verbatim>\<open>'loading'\<close> and the data and error from before the call.
\<close>

theorem mutate_sets_loading_keeps_data_and_error:
  "status (snd (mutate a c s)) = Loading \<and> isLoading (snd (mutate a c s))
   \<and> data (snd (mutate a c s)) = data s \<and> error (snd (mutate a c s)) = error s
   \<and> (\<forall>evs t. list_all (\<lambda>ev. \<not> concerns (nextPromise s) ev) evs \<longrightarrow>
         run options store evs (snd (mutate a Returns s)) = Some t \<longrightarrow>
         status t = Loading \<and> isLoading t \<and> data t = data s \<and> error t = error s)"
proof -
  let ?s1 = "snd (mutate a Returns s)"
  have now: "status (snd (mutate a c s)) = Loading \<and> isLoading (snd (mutate a c s))
      \<and> data (snd (mutate a c s)) = data s \<and> error (snd (mutate a c s)) = error s"
    by (cases c) (simp_all add: mutate_def isLoading_def Let_def)
  have pd: "pendingPromise ?s1 = Some (nextPromise s)" by (simp add: mutate_Returns)
  have sh: "status ?s1 = Loading" "data ?s1 = data s" "error ?s1 = error s"
    by (simp_all add: mutate_Returns)
  have later: "status t = Loading \<and> isLoading t \<and> data t = data s \<and> error t = error s"
    if oth: "list_all (\<lambda>ev. \<not> concerns (nextPromise s) ev) evs"
      and rn: "run options store evs ?s1 = Some t" for evs t
  proof -
    from others_only [OF oth] have ni: "\<not> list_ex initiates evs"
      and fl: "filter (concerns (nextPromise s)) evs = []"
      by simp_all
    from stale_settlements_erasable [OF pd ni rn] fl have "shared ?s1 = shared t" by simp
    with sh show ?thesis by (simp add: shared_def isLoading_def)
  qed
  from now later show ?thesis by blast
qed

theorem mutate_sets_loading_keeps_data_and_error_witness:
  "list_all (\<lambda>ev. \<not> concerns 1 ev) [OpSettles 0 (Inr (7 :: nat)), CatchReaction 0 :: (nat, string, string) event]
   \<and> (\<exists>t. run \<lparr>keys = None\<rparr> \<lparr>invalidateEntry = (\<lambda>k :: string. None)\<rparr>
            [OpSettles 0 (Inr 7), CatchReaction 0]
            (snd (mutate ''new'' Returns (snd (mutate ''old'' Returns
              (useMutation :: (nat, string, string, string) mutation_state))))) = Some t
          \<and> returned t 0 = Some (Inr 7)
          \<and> status t = Loading \<and> isLoading t \<and> data t = None \<and> error t = None)"
proof -
  let ?o = "\<lparr>keys = None\<rparr> :: (nat, string, string, string) UseMutationOptions"
  let ?c = "\<lparr>invalidateEntry = (\<lambda>k. None)\<rparr> :: (string, string) QueryCache"
  let ?s = "snd (mutate ''old'' Returns (useMutation :: (nat, string, string, string) mutation_state))"
  let ?evs = "[OpSettles 0 (Inr 7), CatchReaction 0] :: (nat, string, string) event list"
  have n: "nextPromise ?s = 1" by (simp add: mutate_Returns useMutation_def)
  have h1: "list_all (\<lambda>ev. \<not> concerns (nextPromise ?s) ev) ?evs" by (simp add: n)
  have pr: "promises (snd (mutate ''new'' Returns ?s)) 0 = Some (OpPending ''old'')"
    by (simp add: mutate_Returns useMutation_def)
  have pd: "pendingPromise (snd (mutate ''new'' Returns ?s)) \<noteq> Some 0"
    by (simp add: mutate_Returns useMutation_def)
  from settle_returned [OF pr, of ?o ?c "Inr 7"] pd
  obtain t where h2: "run ?o ?c ?evs (snd (mutate ''new'' Returns ?s)) = Some t"
    and rt: "returned t 0 = Some (Inr 7)"
    by (auto simp: settle_def then_result_def)
  have d: "data ?s = None" "error ?s = None" by (simp_all add: mutate_Returns useMutation_def)
  from mutate_sets_loading_keeps_data_and_error [of "''new''" Returns ?s ?o ?c] h1 h2
  have "status t = Loading \<and> isLoading t \<and> data t = None \<and> error t = None"
    unfolding d [symmetric] by blast
  with h1 [unfolded n] h2 rt show ?thesis by blast
qed


end
